theory Spec2Isabelle
  imports Complex_Main "HOL-Library.Word"
begin

section \<open>The interpolator worker of video2x (\<open>video2x/interpolator.py\<close>)\<close>

text \<open>
  The worker is a process whose \<open>run\<close> method loops: it polls a shared pause flag, takes a
  job from a shared queue without blocking, estimates how much the two frames of the job
  differ, asks a cached processor object for an interpolated frame when the difference is
  below the job's threshold, and stores up to three frames in a shared list.

  The embedding is a state transformer for one loop iteration (\<open>iteration\<close>) and a loop
  driven by a schedule (\<open>loop\<close>). Every call the body makes to a collaborator (the queue,
  Pillow, the algorithm classes, the shared list, the logger) is also recorded as an
  \<open>event\<close>, so that "no dequeue", "no write" or "no processor call" are statements about
  the recorded calls and not only about the resulting state.

  Python's floats are idealised as \<open>real\<close>: rounding is not modelled.
\<close>

subsection \<open>Exceptions\<close>

text \<open>
  The exceptions the body can meet. \<open>SystemExit\<close> and \<open>KeyboardInterrupt\<close> are the two the
  first \<open>except\<close> clause names; all the others derive from \<open>Exception\<close> and reach the
  second clause. \<open>queue.Empty\<close> is caught where it is raised and is not listed.
\<close>

datatype exn =
    SystemExit
  | KeyboardInterrupt
  | KeyError
  | IndexError
  | ZeroDivisionError
  | ValueError
  | RuntimeError

subsection \<open>Jobs, collaborators, the worker's state\<close>

text \<open>
  A job is the tuple the source unpacks:
  \<open>(frame_index, (image0, image1), (difference_threshold, algorithm))\<close>,
  where \<open>image0\<close> may be \<open>None\<close>.
\<close>

type_synonym 'img job = "int \<times> ('img option \<times> 'img) \<times> (real \<times> string)"

text \<open>
  What the source imports and does not define: \<open>ImageChops.difference\<close>, the \<open>mean\<close> of
  \<open>ImageStat.Stat\<close>, the class \<open>Rife\<close> (its constructor takes a device index) and the
  \<open>process\<close> method of a processor object. Each may raise.
\<close>

record ('img, 'proc) collaborators =
  ImageChops_difference :: "'img \<Rightarrow> 'img \<Rightarrow> exn + 'img"
  ImageStat_mean :: "'img \<Rightarrow> exn + real list"
  Rife :: "int \<Rightarrow> exn + 'proc"
  process :: "'proc \<Rightarrow> 'img \<Rightarrow> 'img \<Rightarrow> exn + 'img"

text \<open>\<open>ALGORITHM_CLASSES = {"rife": Rife}\<close>\<close>

definition ALGORITHM_CLASSES ::
  "('img, 'proc) collaborators \<Rightarrow> string \<rightharpoonup> (int \<Rightarrow> exn + 'proc)" where
  "ALGORITHM_CLASSES c = [''rife'' \<mapsto> Rife c]"

text \<open>
  The attributes of \<open>Interpolator\<close>. \<open>processed_frames\<close> is the shared list; a slot that
  holds no frame yet holds \<open>None\<close>.
\<close>

record ('img, 'proc) interpolator =
  processing_queue :: "'img job list"
  processed_frames :: "'img option list"
  pause :: bool
  running :: bool
  processor_objects :: "string \<rightharpoonup> 'proc"

text \<open>The calls of one iteration, in the order they happen.\<close>

datatype 'img event =
    Sleep
  | Get "'img job"
  | Difference 'img 'img
  | Lookup string
  | Construct string int
  | Process string 'img 'img
  | SetItem nat 'img
  | LogException exn

subsection \<open>Python list indexing\<close>

text \<open>
  A negative index counts from the end; an index outside the list raises \<open>IndexError\<close>.
  \<open>py_position\<close> is the position an index denotes.
\<close>

definition py_position :: "'a list \<Rightarrow> int \<Rightarrow> int" where
  "py_position xs i = (if i < 0 then int (length xs) + i else i)"

definition py_getitem :: "'a list \<Rightarrow> int \<Rightarrow> exn + 'a" where
  "py_getitem xs i =
     (let j = py_position xs i
      in if 0 \<le> j \<and> j < int (length xs) then Inr (xs ! nat j) else Inl IndexError)"

definition py_setitem :: "'a list \<Rightarrow> int \<Rightarrow> 'a \<Rightarrow> exn + 'a list" where
  "py_setitem xs i v =
     (let j = py_position xs i
      in if 0 \<le> j \<and> j < int (length xs) then Inr (xs[nat j := v]) else Inl IndexError)"

subsection \<open>Sequencing statements that may raise\<close>

text \<open>
  A statement yields a value or an exception, the state it leaves and the calls it made.
  \<open>then_do\<close> runs the next statement only when the first one did not raise.
\<close>

type_synonym ('a, 's, 'e) stmt = "(exn + 'a) \<times> 's \<times> 'e list"

definition then_do ::
  "('a, 's, 'e) stmt \<Rightarrow> ('a \<Rightarrow> 's \<Rightarrow> ('b, 's, 'e) stmt) \<Rightarrow> ('b, 's, 'e) stmt" where
  "then_do m f =
     (case m of
        (Inl e, s, evs) \<Rightarrow> (Inl e, s, evs)
      | (Inr x, s, evs) \<Rightarrow> (case f x s of (r, s', evs') \<Rightarrow> (r, s', evs @ evs')))"

subsection \<open>The loop body\<close>

text \<open>
  Lines 85 to 89:
  \<^verbatim>\<open>
  difference = ImageChops.difference(image0, image1)
  difference_stat = ImageStat.Stat(difference)
  difference_ratio = (
      sum(difference_stat.mean) / (len(difference_stat.mean) * 255) * 100
  )
  \<close>
  Dividing by \<open>len(...) * 255 = 0\<close> raises \<open>ZeroDivisionError\<close>.
\<close>

definition difference_ratio ::
  "('img, 'proc) collaborators \<Rightarrow> 'img \<Rightarrow> 'img \<Rightarrow> exn + real" where
  "difference_ratio c image0 image1 =
     (case ImageChops_difference c image0 image1 of
        Inl e \<Rightarrow> Inl e
      | Inr difference \<Rightarrow>
          (case ImageStat_mean c difference of
             Inl e \<Rightarrow> Inl e
           | Inr mean \<Rightarrow>
               if length mean * 255 = 0 then Inl ZeroDivisionError
               else Inr (sum_list mean / real (length mean * 255) * 100)))"

text \<open>
  Lines 97 to 100:
  \<^verbatim>\<open>
  processor_object = self.processor_objects.get(algorithm)
  if processor_object is None:
      processor_object = ALGORITHM_CLASSES[algorithm](0)
      self.processor_objects[algorithm] = processor_object
  \<close>
\<close>

definition processor_object ::
  "('img, 'proc) collaborators \<Rightarrow> string \<Rightarrow> ('img, 'proc) interpolator \<Rightarrow>
   ('proc, ('img, 'proc) interpolator, 'img event) stmt" where
  "processor_object c algorithm s =
     (case processor_objects s algorithm of
        Some p \<Rightarrow> (Inr p, s, [])
      | None \<Rightarrow>
          (case ALGORITHM_CLASSES c algorithm of
             None \<Rightarrow> (Inl KeyError, s, [Lookup algorithm])
           | Some cls \<Rightarrow>
               (case cls 0 of
                  Inl e \<Rightarrow> (Inl e, s, [Lookup algorithm, Construct algorithm 0])
                | Inr p \<Rightarrow>
                    (Inr p,
                     s\<lparr>processor_objects := (processor_objects s)(algorithm \<mapsto> p)\<rparr>,
                     [Lookup algorithm, Construct algorithm 0]))))"

text \<open>
  Lines 93 to 106:
  \<^verbatim>\<open>
  if difference_ratio < difference_threshold:
      (select processor_object)
      interpolated_image = processor_object.process(image0, image1)
  else:
      interpolated_image = image0
  \<close>
\<close>

definition interpolated_image ::
  "('img, 'proc) collaborators \<Rightarrow> 'img \<Rightarrow> 'img \<Rightarrow> real \<Rightarrow> real \<Rightarrow> string \<Rightarrow>
   ('img, 'proc) interpolator \<Rightarrow> ('img, ('img, 'proc) interpolator, 'img event) stmt" where
  "interpolated_image c image0 image1 ratio difference_threshold algorithm s =
     (if ratio < difference_threshold then
        then_do (processor_object c algorithm s)
          (\<lambda>p s'. (process c p image0 image1, s', [Process algorithm image0 image1]))
      else (Inr image0, s, []))"

text \<open>\<open>self.processed_frames[i] = v\<close>; the event records the position written.\<close>

definition setitem ::
  "int \<Rightarrow> 'img \<Rightarrow> ('img, 'proc) interpolator \<Rightarrow>
   (unit, ('img, 'proc) interpolator, 'img event) stmt" where
  "setitem i v s =
     (case py_setitem (processed_frames s) i (Some v) of
        Inl e \<Rightarrow> (Inl e, s, [])
      | Inr frames \<Rightarrow>
          (Inr (), s\<lparr>processed_frames := frames\<rparr>,
           [SetItem (nat (py_position (processed_frames s) i)) v]))"

text \<open>
  Lines 108 to 111:
  \<^verbatim>\<open>
  if frame_index == 1:
      self.processed_frames[0] = image0
  self.processed_frames[frame_index * 2 - 1] = interpolated_image
  self.processed_frames[frame_index * 2] = image1
  \<close>
\<close>

definition write_frames ::
  "int \<Rightarrow> 'img \<Rightarrow> 'img \<Rightarrow> 'img \<Rightarrow> ('img, 'proc) interpolator \<Rightarrow>
   (unit, ('img, 'proc) interpolator, 'img event) stmt" where
  "write_frames frame_index image0 interpolated image1 s =
     then_do (if frame_index = 1 then setitem 0 image0 s else (Inr (), s, []))
       (\<lambda>_ s1. then_do (setitem (frame_index * 2 - 1) interpolated s1)
          (\<lambda>_ s2. setitem (frame_index * 2) image1 s2))"

text \<open>
  Lines 79 to 111, the part of the body after a job was taken from the queue. A job whose
  \<open>image0\<close> is \<open>None\<close> is skipped (\<open>continue\<close>).
\<close>

definition process_job ::
  "('img, 'proc) collaborators \<Rightarrow> 'img job \<Rightarrow> ('img, 'proc) interpolator \<Rightarrow>
   (unit, ('img, 'proc) interpolator, 'img event) stmt" where
  "process_job c job s =
     (case job of (frame_index, (image0_opt, image1), (difference_threshold, algorithm)) \<Rightarrow>
        (case image0_opt of
           None \<Rightarrow> (Inr (), s, [])
         | Some image0 \<Rightarrow>
             then_do (difference_ratio c image0 image1, s, [Difference image0 image1])
               (\<lambda>ratio s1.
                  then_do
                    (interpolated_image c image0 image1 ratio difference_threshold algorithm s1)
                    (\<lambda>interpolated s2.
                       write_frames frame_index image0 interpolated image1 s2))))"

text \<open>
  The two \<open>except\<close> clauses: both leave the loop; the second logs the exception first.
\<close>

definition except :: "exn \<Rightarrow> 'img event list" where
  "except e = (if e = SystemExit \<or> e = KeyboardInterrupt then [] else [LogException e])"

datatype outcome = Continue | Break

text \<open>
  One pass through the body of \<open>while self.running is True\<close> (lines 62 to 119): the pause
  flag, the non-blocking \<open>get\<close> (an empty queue sleeps and continues), then the job.
\<close>

definition iteration ::
  "('img, 'proc) collaborators \<Rightarrow> ('img, 'proc) interpolator \<Rightarrow>
   outcome \<times> ('img, 'proc) interpolator \<times> 'img event list" where
  "iteration c s =
     (if pause s then (Continue, s, [Sleep])
      else
        (case processing_queue s of
           [] \<Rightarrow> (Continue, s, [Sleep])
         | job # rest \<Rightarrow>
             (case process_job c job (s\<lparr>processing_queue := rest\<rparr>) of
                (Inr _, s', evs) \<Rightarrow> (Continue, s', Get job # evs)
              | (Inl e, s', evs) \<Rightarrow> (Break, s', Get job # evs @ except e))))"

subsection \<open>The loop and what happens around it\<close>

text \<open>\<open>_stop\<close>, the handler of \<open>SIGTERM\<close> (lines 126 and 127).\<close>

definition stop :: "('img, 'proc) interpolator \<Rightarrow> ('img, 'proc) interpolator" where
  "stop s = s\<lparr>running := False\<rparr>"

text \<open>
  The loop runs until \<open>running\<close> is false at the top of an iteration or the body breaks,
  which may be never. A schedule stands for the passage of time: \<open>Iterate\<close> lets the worker
  run one iteration (the test of \<open>running\<close>, then the body); the other ticks are what the
  rest of the system does between two tests: it sets the pause flag, puts a job in the
  queue, or delivers \<open>SIGTERM\<close>. The body reads the pause flag and the queue once and never
  reads \<open>running\<close>, so a change during an iteration is a change before or after it.
  \<open>Looping\<close> says that the schedule ended before the loop did.
\<close>

datatype 'img tick = Iterate | SetPause bool | Put "'img job" | Sigterm

datatype status = Looping | Terminated

fun loop ::
  "('img, 'proc) collaborators \<Rightarrow> 'img tick list \<Rightarrow> ('img, 'proc) interpolator \<Rightarrow>
   status \<times> ('img, 'proc) interpolator \<times> 'img event list" where
  "loop c [] s = (Looping, s, [])"
| "loop c (Iterate # ts) s =
     (if \<not> running s then (Terminated, s, [])
      else
        (case iteration c s of
           (Break, s', evs) \<Rightarrow> (Terminated, s', evs)
         | (Continue, s', evs) \<Rightarrow>
             (case loop c ts s' of (st, s'', evs') \<Rightarrow> (st, s'', evs @ evs'))))"
| "loop c (SetPause b # ts) s = loop c ts (s\<lparr>pause := b\<rparr>)"
| "loop c (Put job # ts) s = loop c ts (s\<lparr>processing_queue := processing_queue s @ [job]\<rparr>)"
| "loop c (Sigterm # ts) s = loop c ts (stop s)"

text \<open>\<open>run\<close> sets \<open>running\<close> and enters the loop (lines 57 to 61).\<close>

definition run ::
  "('img, 'proc) collaborators \<Rightarrow> 'img tick list \<Rightarrow> ('img, 'proc) interpolator \<Rightarrow>
   status \<times> ('img, 'proc) interpolator \<times> 'img event list" where
  "run c ts s = loop c ts (s\<lparr>running := True\<rparr>)"

subsection \<open>A small worker to run the model on\<close>

text \<open>
  Frames are numbers (a brightness), processor objects are numbered by their device. The
  stub difference of two frames is their distance, its three band means are that distance,
  and the stub processor returns the sum of the two frames.
\<close>

definition stub :: "(nat, nat) collaborators" where
  "stub =
     \<lparr>ImageChops_difference = (\<lambda>a b. Inr (if a \<le> b then b - a else a - b)),
      ImageStat_mean = (\<lambda>d. Inr [real d, real d, real d]),
      Rife = (\<lambda>device. Inr (nat device)),
      process = (\<lambda>p a b. Inr (a + b))\<rparr>"

definition idle :: "(nat, nat) interpolator" where
  "idle =
     \<lparr>processing_queue = [],
      processed_frames = [None, None, None, None, None],
      pause = False,
      running = True,
      processor_objects = Map.empty\<rparr>"

text \<open>
  Two workers about to take a job. In \<open>near_pair\<close> the frames 10 and 20 differ by less than
  the threshold of ten percent and the job names the algorithm \<open>rife\<close>; \<open>near_pair_done\<close>
  is the worker after the iteration. In \<open>scene_cut\<close> the frames 10 and 200 differ by more
  and the job names an algorithm that \<open>ALGORITHM_CLASSES\<close> does not have.
\<close>

definition near_pair :: "(nat, nat) interpolator" where
  "near_pair = idle\<lparr>processing_queue := [(1, (Some 10, 20), (10, ''rife''))]\<rparr>"

definition near_pair_done :: "(nat, nat) interpolator" where
  "near_pair_done =
     idle\<lparr>processor_objects := [''rife'' \<mapsto> 0],
          processed_frames := [Some 10, Some 30, Some 20, None, None]\<rparr>"

definition scene_cut :: "(nat, nat) interpolator" where
  "scene_cut = idle\<lparr>processing_queue := [(2, (Some 10, 200), (10, ''unknown''))]\<rparr>"

definition scene_cut_done :: "(nat, nat) interpolator" where
  "scene_cut_done = idle\<lparr>processed_frames := [None, None, None, Some 10, Some 200]\<rparr>"

subsection \<open>The difference estimator on 8-bit images\<close>

text \<open>
  An 8-bit image is the list of its bands (channels); a band is the list of its pixel
  values in raster order. Two images have the same dimensions when they have as many
  bands and each band has as many pixels as its counterpart.
\<close>

type_synonym image = "8 word list list"

definition same_dimensions :: "image \<Rightarrow> image \<Rightarrow> bool" where
  "same_dimensions a b = (map length a = map length b)"

definition has_pixels :: "image \<Rightarrow> bool" where
  "has_pixels a = (a \<noteq> [] \<and> [] \<notin> set a)"

text \<open>
  Modelled from the spec: \<open>ImageChops.difference\<close> and the \<open>mean\<close> of \<open>ImageStat.Stat\<close> are
  functions of Pillow, which the repository imports and does not contain. Section 4.1
  describes them: the first yields the per-pixel, per-channel absolute difference of the
  two images, the second the mean of an image over its pixels, one value per channel. The
  specification leaves images of different dimensions undefined; here a different number
  of bands raises \<open>ValueError\<close> and bands of different size are compared over their common
  part. The mean of a band without pixels divides by zero.
\<close>

definition pixel_difference :: "8 word \<Rightarrow> 8 word \<Rightarrow> 8 word" where
  "pixel_difference x y = (if x \<le> y then y - x else x - y)"

definition pil_difference :: "image \<Rightarrow> image \<Rightarrow> exn + image" where
  "pil_difference a b =
     (if length a \<noteq> length b then Inl ValueError
      else Inr (map2 (map2 pixel_difference) a b))"

definition pil_mean :: "image \<Rightarrow> exn + real list" where
  "pil_mean d =
     (if [] \<in> set d then Inl ZeroDivisionError
      else Inr (map (\<lambda>band. real (sum_list (map unat band)) / real (length band)) d))"

text \<open>The collaborators with Pillow filled in; the processor stays a parameter.\<close>

definition pillow ::
  "(int \<Rightarrow> exn + 'proc) \<Rightarrow> ('proc \<Rightarrow> image \<Rightarrow> image \<Rightarrow> exn + image) \<Rightarrow>
   (image, 'proc) collaborators" where
  "pillow rife proc =
     \<lparr>ImageChops_difference = pil_difference, ImageStat_mean = pil_mean,
      Rife = rife, process = proc\<rparr>"

text \<open>
  The estimator in the words of the specification: the mean absolute pixel difference of
  each channel, averaged over the channels, divided by 255 and multiplied by 100.
\<close>

definition mean_absolute_difference :: "8 word list \<Rightarrow> 8 word list \<Rightarrow> real" where
  "mean_absolute_difference xs ys =
     sum_list (map2 (\<lambda>x y. \<bar>real (unat x) - real (unat y)\<bar>) xs ys) / real (length xs)"

definition estimator_spec :: "image \<Rightarrow> image \<Rightarrow> real" where
  "estimator_spec a b =
     sum_list (map2 mean_absolute_difference a b) / real (length a) / 255 * 100"

section \<open>Properties of the worker\<close>

subsection \<open>Sequencing and list stores\<close>

lemma then_do_Inl [simp]: "then_do (Inl e, s, evs) f = (Inl e, s, evs)"
  by (simp add: then_do_def)

lemma then_do_Inr [simp]:
  "then_do (Inr x, s, evs) f = (case f x s of (r, s', evs') \<Rightarrow> (r, s', evs @ evs'))"
  by (simp add: then_do_def)

lemma then_do_cases:
  assumes "then_do m f = (r, s', evs)"
  obtains (raised) e where "m = (Inl e, s', evs)" "r = Inl e"
    | (went_on) x s1 evs1 evs2 where "m = (Inr x, s1, evs1)" "f x s1 = (r, s', evs2)"
        "evs = evs1 @ evs2"
proof -
  obtain v s1 evs1 where m: "m = (v, s1, evs1)" by (cases m)
  show thesis
  proof (cases v)
    case (Inl e)
    from assms m Inl have "m = (Inl e, s', evs)" "r = Inl e" by simp_all
    then show thesis by (rule raised)
  next
    case (Inr x)
    obtain r2 s2 evs2 where f: "f x s1 = (r2, s2, evs2)" by (cases "f x s1")
    from assms m Inr f have "r2 = r" "s2 = s'" "evs = evs1 @ evs2" by simp_all
    with m Inr f show thesis by (intro went_on[of x s1 evs1 evs2]) simp_all
  qed
qed

lemma setitem_cases:
  assumes "setitem i v s = (r, s', evs)"
  obtains (out_of_range) "r = Inl IndexError" "s' = s" "evs = []"
      "\<not> (0 \<le> py_position (processed_frames s) i
          \<and> py_position (processed_frames s) i < int (length (processed_frames s)))"
    | (stored) "r = Inr ()" "evs = [SetItem (nat (py_position (processed_frames s) i)) v]"
      "0 \<le> py_position (processed_frames s) i"
      "py_position (processed_frames s) i < int (length (processed_frames s))"
      "s' = s\<lparr>processed_frames :=
               (processed_frames s)[nat (py_position (processed_frames s) i) := Some v]\<rparr>"
proof (cases "0 \<le> py_position (processed_frames s) i
          \<and> py_position (processed_frames s) i < int (length (processed_frames s))")
  case True
  with assms show thesis
    by (intro stored) (simp_all add: setitem_def py_setitem_def Let_def)
next
  case False
  with assms show thesis
    by (intro out_of_range) (simp_all add: setitem_def py_setitem_def Let_def)
qed

lemma py_position_update [simp]: "py_position (xs[n := v]) i = py_position xs i"
  by (simp add: py_position_def)

lemma py_getitem_update_same:
  "0 \<le> py_position xs i \<Longrightarrow> py_position xs i < int (length xs) \<Longrightarrow>
   py_getitem (xs[nat (py_position xs i) := v]) i = Inr v"
  by (simp add: py_getitem_def Let_def)

lemma py_getitem_update_other:
  "py_position xs j \<noteq> py_position xs i \<Longrightarrow> 0 \<le> py_position xs i \<Longrightarrow>
   py_getitem (xs[nat (py_position xs i) := v]) j = py_getitem xs j"
  by (auto simp: py_getitem_def Let_def nth_list_update)

lemma setitem_frame:
  assumes "setitem i v s = (r, s', evs)"
  shows "processing_queue s' = processing_queue s" "pause s' = pause s"
    "running s' = running s" "processor_objects s' = processor_objects s"
    "length (processed_frames s') = length (processed_frames s)"
  using assms by (cases rule: setitem_cases; simp)+

lemma setitem_stored:
  assumes "setitem i v s = (Inr u, s', evs)"
  shows "py_getitem (processed_frames s') i = Inr (Some v)"
    and "py_position (processed_frames s) j \<noteq> py_position (processed_frames s) i \<Longrightarrow>
         py_getitem (processed_frames s') j = py_getitem (processed_frames s) j"
    and "evs = [SetItem (nat (py_position (processed_frames s) i)) v]"
    and "0 \<le> py_position (processed_frames s) i"
  using assms
  by (cases rule: setitem_cases; simp add: py_getitem_update_same py_getitem_update_other)+

lemma setitem_populated:
  assumes "setitem i v s = (Inr u, s', evs)"
    and "py_getitem (processed_frames s) j = Inr (Some w)"
  shows "\<exists>w'. py_getitem (processed_frames s') j = Inr (Some w')"
proof (cases "py_position (processed_frames s) j = py_position (processed_frames s) i")
  case True
  from assms(1) have "py_getitem (processed_frames s') i = Inr (Some v)"
    by (rule setitem_stored(1))
  moreover from assms(1) have "length (processed_frames s') = length (processed_frames s)"
    by (rule setitem_frame(5))
  ultimately show ?thesis using True
    by (simp add: py_getitem_def py_position_def Let_def split: if_splits)
next
  case False
  with assms show ?thesis by (simp add: setitem_stored(2))
qed

lemma write_frames_ok:
  assumes "write_frames k a x b s = (Inr u, s', evs)"
  obtains s1 evs1 s2 evs2 evs3 where
    "if k = 1 then setitem 0 a s = (Inr (), s1, evs1) else s1 = s \<and> evs1 = []"
    "setitem (k * 2 - 1) x s1 = (Inr (), s2, evs2)"
    "setitem (k * 2) b s2 = (Inr (), s', evs3)"
    "evs = evs1 @ evs2 @ evs3"
  using assms unfolding write_frames_def
  by (elim then_do_cases) (simp_all split: if_splits)

subsection \<open>Pause, priming jobs and termination\<close>

lemma iteration_paused: "pause s \<Longrightarrow> iteration c s = (Continue, s, [Sleep])"
  by (simp add: iteration_def)

lemma loop_paused:
  assumes "pause s" and "SetPause False \<notin> set ts" and "loop c ts s = (st, s', evs)"
  shows "set evs \<subseteq> {Sleep} \<and> processed_frames s' = processed_frames s
         \<and> processor_objects s' = processor_objects s
         \<and> (\<exists>new. processing_queue s' = processing_queue s @ new)"
  using assms
proof (induction ts arbitrary: s st s' evs)
  case Nil
  then show ?case by simp
next
  case (Cons t ts)
  show ?case
  proof (cases t)
    case Iterate
    show ?thesis
    proof (cases "running s")
      case False
      with Cons.prems Iterate show ?thesis by simp
    next
      case True
      obtain st2 s2 evs2 where l: "loop c ts s = (st2, s2, evs2)"
        by (cases "loop c ts s")
      from Cons.prems(2) have "SetPause False \<notin> set ts" by simp
      from Cons.IH[OF Cons.prems(1) this l]
      have ih: "set evs2 \<subseteq> {Sleep}" "processed_frames s2 = processed_frames s"
        "processor_objects s2 = processor_objects s"
        "\<exists>new. processing_queue s2 = processing_queue s @ new"
        by simp_all
      from Cons.prems(1,3) Iterate True l
      have "st = st2" "s' = s2" "evs = Sleep # evs2"
        by (simp_all add: iteration_paused)
      with ih show ?thesis by simp
    qed
  next
    case (SetPause b)
    with Cons.prems(2) have b: "b" by auto
    from Cons.prems(2) have n: "SetPause False \<notin> set ts" by simp
    from Cons.prems(3) SetPause have l: "loop c ts (s\<lparr>pause := b\<rparr>) = (st, s', evs)" by simp
    have "pause (s\<lparr>pause := b\<rparr>)" using b by simp
    from Cons.IH[OF this n l] show ?thesis by simp
  next
    case (Put job)
    from Cons.prems(2) have n: "SetPause False \<notin> set ts" by simp
    from Cons.prems(3) Put
    have l: "loop c ts (s\<lparr>processing_queue := processing_queue s @ [job]\<rparr>) = (st, s', evs)"
      by simp
    have "pause (s\<lparr>processing_queue := processing_queue s @ [job]\<rparr>)"
      using Cons.prems(1) by simp
    from Cons.IH[OF this n l] show ?thesis by auto
  next
    case Sigterm
    from Cons.prems(2) have n: "SetPause False \<notin> set ts" by simp
    from Cons.prems(3) Sigterm have l: "loop c ts (stop s) = (st, s', evs)" by simp
    have "pause (stop s)" using Cons.prems(1) by (simp add: stop_def)
    from Cons.IH[OF this n l] show ?thesis by (simp add: stop_def)
  qed
qed

text \<open>
  Claim C7. An iteration that begins while the pause flag is set sleeps and does nothing
  else: it takes no job and stores no frame. As long as nobody clears the flag, whatever
  else happens (jobs are put, \<open>SIGTERM\<close> arrives, the worker iterates any number of times),
  the worker performs no \<open>get\<close> and no store, the frames stay as they were, and the queue
  still starts with the jobs it held, in their order: none is lost or reordered. So a
  \<open>get\<close> can only happen after the flag was cleared.
\<close>

theorem paused_worker_takes_no_job:
  assumes "pause s" and "SetPause False \<notin> set ts" and "loop c ts s = (st, s', evs)"
  shows "iteration c s = (Continue, s, [Sleep])
         \<and> (\<forall>job. Get job \<notin> set evs) \<and> (\<forall>i v. SetItem i v \<notin> set evs)
         \<and> processed_frames s' = processed_frames s
         \<and> (\<exists>new. processing_queue s' = processing_queue s @ new)"
proof -
  from loop_paused[OF assms]
  have "set evs \<subseteq> {Sleep}" "processed_frames s' = processed_frames s"
    "\<exists>new. processing_queue s' = processing_queue s @ new"
    by simp_all
  moreover from \<open>set evs \<subseteq> {Sleep}\<close>
  have "(\<forall>job. Get job \<notin> set evs) \<and> (\<forall>i v. SetItem i v \<notin> set evs)" by auto
  ultimately show ?thesis using assms(1) by (simp add: iteration_paused)
qed


theorem paused_worker_takes_no_job_witness:
  "pause (idle\<lparr>pause := True, processing_queue := [(1, (Some 5, 10), (10, ''rife''))]\<rparr>)
   \<and> SetPause False \<notin> set [Iterate, Put (2, (Some 10, 20), (10, ''rife'')), Iterate]
   \<and> loop stub [Iterate, Put (2, (Some 10, 20), (10, ''rife'')), Iterate]
        (idle\<lparr>pause := True, processing_queue := [(1, (Some 5, 10), (10, ''rife''))]\<rparr>)
      = (Looping,
         idle\<lparr>pause := True,
              processing_queue :=
                [(1, (Some 5, 10), (10, ''rife'')), (2, (Some 10, 20), (10, ''rife''))]\<rparr>,
         [Sleep, Sleep])
   \<and> (\<forall>job. Get job \<notin> set [Sleep, Sleep :: nat event])
   \<and> processed_frames idle = [None, None, None, None, None]"
proof -
  let ?s = "idle\<lparr>pause := True, processing_queue := [(1, (Some 5, 10), (10, ''rife''))]\<rparr>"
  let ?ts = "[Iterate, Put (2, (Some 10, 20), (10, ''rife'')), Iterate]"
  let ?s' = "idle\<lparr>pause := True,
              processing_queue :=
                [(1, (Some 5, 10), (10, ''rife'')), (2, (Some 10, 20), (10, ''rife''))]\<rparr>"
  have h1: "pause ?s" by simp
  have h2: "SetPause False \<notin> set ?ts" by simp
  have h3: "loop stub ?ts ?s = (Looping, ?s', [Sleep, Sleep])"
    by (simp add: iteration_def idle_def)
  from paused_worker_takes_no_job [OF h1 h2 h3] h1 h2 h3 show ?thesis
    by (simp add: idle_def)
qed

text \<open>
  Claim C6. When the iteration takes a job whose first frame is \<open>None\<close>, it continues with
  the next iteration at once. The only call it made is the \<open>get\<close>: no difference is
  computed, no processor is looked up, constructed or invoked, nothing is stored. The state
  differs from the one before only by the job that left the queue, so the processor cache
  and every slot of \<open>processed_frames\<close> are unchanged.
\<close>

theorem absent_first_frame_discarded:
  assumes "\<not> pause s"
    and "processing_queue s = (frame_index, (None, image1), (threshold, algorithm)) # rest"
  shows "iteration c s =
           (Continue, s\<lparr>processing_queue := rest\<rparr>,
            [Get (frame_index, (None, image1), (threshold, algorithm))])"
  using assms by (simp add: iteration_def process_job_def)

theorem absent_first_frame_discarded_witness:
  "\<not> pause (idle\<lparr>processing_queue := [(0, (None, 10), (10, ''rife'')), (1, (Some 10, 20), (10, ''rife''))]\<rparr>)
   \<and> iteration stub
        (idle\<lparr>processing_queue := [(0, (None, 10), (10, ''rife'')), (1, (Some 10, 20), (10, ''rife''))]\<rparr>)
      = (Continue, idle\<lparr>processing_queue := [(1, (Some 10, 20), (10, ''rife''))]\<rparr>,
         [Get (0, (None, 10), (10, ''rife''))])"
proof -
  let ?s = "idle\<lparr>processing_queue := [(0, (None, 10), (10, ''rife'')), (1, (Some 10, 20), (10, ''rife''))]\<rparr>"
  have h1: "\<not> pause ?s" by (simp add: idle_def)
  have h2: "processing_queue ?s = (0, (None, 10), (10, ''rife'')) # [(1, (Some 10, 20), (10, ''rife''))]"
    by simp
  from absent_first_frame_discarded [OF h1 h2, of stub] h1 show ?thesis by simp
qed

lemma loop_not_running:
  assumes "\<not> running s" and "loop c ts s = (st, s', evs)"
  shows "evs = [] \<and> processed_frames s' = processed_frames s
         \<and> processor_objects s' = processor_objects s
         \<and> (\<exists>new. processing_queue s' = processing_queue s @ new)
         \<and> (Iterate \<in> set ts \<longrightarrow> st = Terminated)"
  using assms
proof (induction ts arbitrary: s)
  case Nil
  then show ?case by simp
next
  case (Cons t ts)
  show ?case
  proof (cases t)
    case Iterate
    with Cons.prems show ?thesis by simp
  next
    case (SetPause b)
    with Cons.prems have "loop c ts (s\<lparr>pause := b\<rparr>) = (st, s', evs)"
      and "\<not> running (s\<lparr>pause := b\<rparr>)" by simp_all
    from Cons.IH[OF this(2,1)] SetPause show ?thesis by simp
  next
    case (Put job)
    with Cons.prems
    have "loop c ts (s\<lparr>processing_queue := processing_queue s @ [job]\<rparr>) = (st, s', evs)"
      and "\<not> running (s\<lparr>processing_queue := processing_queue s @ [job]\<rparr>)" by simp_all
    from Cons.IH[OF this(2,1)] Put show ?thesis by auto
  next
    case Sigterm
    with Cons.prems have "loop c ts (stop s) = (st, s', evs)"
      and "\<not> running (stop s)" by (simp_all add: stop_def)
    from Cons.IH[OF this(2,1)] Sigterm show ?thesis by (simp add: stop_def)
  qed
qed

text \<open>
  Claim C9. \<open>SIGTERM\<close> sets \<open>running\<close> to false. From then on, whatever the schedule, the
  worker makes no call at all (no \<open>get\<close>, no store), the frames stay as they were, the queue
  keeps the jobs it held, and the first test of \<open>running\<close> that follows ends the loop.
\<close>

theorem sigterm_ends_loop_at_next_test:
  assumes "loop c (Sigterm # ts) s = (st, s', evs)"
  shows "\<not> running (stop s)
         \<and> evs = [] \<and> processed_frames s' = processed_frames s
         \<and> (\<exists>new. processing_queue s' = processing_queue s @ new)
         \<and> (Iterate \<in> set ts \<longrightarrow> st = Terminated)"
proof -
  have n: "\<not> running (stop s)" by (simp add: stop_def)
  from assms have "loop c ts (stop s) = (st, s', evs)" by simp
  from loop_not_running[OF n this] n show ?thesis by (simp add: stop_def)
qed

theorem sigterm_ends_loop_at_next_test_witness:
  "loop stub (Sigterm # [Put (2, (Some 10, 20), (10, ''rife'')), Iterate, Iterate])
        (idle\<lparr>processing_queue := [(1, (Some 5, 10), (10, ''rife''))]\<rparr>)
      = (Terminated,
         idle\<lparr>processing_queue :=
                [(1, (Some 5, 10), (10, ''rife'')), (2, (Some 10, 20), (10, ''rife''))],
              running := False\<rparr>,
         [])
   \<and> Iterate \<in> set [Put (2, (Some 10, 20), (10, ''rife'')), Iterate, Iterate :: nat tick]
   \<and> processed_frames
        (idle\<lparr>processing_queue :=
                [(1, (Some 5, 10), (10, ''rife'')), (2, (Some 10, 20), (10, ''rife''))],
              running := False\<rparr>) = processed_frames idle"
proof -
  let ?s = "idle\<lparr>processing_queue := [(1, (Some 5, 10), (10, ''rife''))]\<rparr>"
  let ?ts = "[Put (2, (Some 10, 20), (10, ''rife'')), Iterate, Iterate]"
  let ?s' = "idle\<lparr>processing_queue :=
                [(1, (Some 5, 10), (10, ''rife'')), (2, (Some 10, 20), (10, ''rife''))],
              running := False\<rparr>"
  have h: "loop stub (Sigterm # ?ts) ?s = (Terminated, ?s', [])"
    by (simp add: stop_def idle_def)
  from sigterm_ends_loop_at_next_test [OF h] h show ?thesis by simp
qed

lemma setitem_events:
  assumes "setitem i v s = (r, s', evs)" and "ev \<in> set evs"
  shows "\<exists>n w. ev = SetItem n w"
  using assms by (cases rule: setitem_cases) auto

lemma write_frames_cases:
  assumes "write_frames k a x b s = (r, s', evs)"
  obtains r1 s1 evs1 r2 s2 evs2 r3 s3 evs3 where
    "(if k = 1 then setitem 0 a s else (Inr (), s, [])) = (r1, s1, evs1)"
    "setitem (k * 2 - 1) x s1 = (r2, s2, evs2)"
    "setitem (k * 2) b s2 = (r3, s3, evs3)"
    "(r, s', evs) =
       (case r1 of Inl e \<Rightarrow> (Inl e, s1, evs1)
        | Inr _ \<Rightarrow> (case r2 of Inl e \<Rightarrow> (Inl e, s2, evs1 @ evs2)
                    | Inr _ \<Rightarrow> (r3, s3, evs1 @ evs2 @ evs3)))"
proof -
  obtain r1 s1 evs1 where 1:
    "(if k = 1 then setitem 0 a s else (Inr (), s, [])) = (r1, s1, evs1)"
    by (cases "if k = 1 then setitem 0 a s else (Inr (), s, [])")
  obtain r2 s2 evs2 where 2: "setitem (k * 2 - 1) x s1 = (r2, s2, evs2)"
    by (cases "setitem (k * 2 - 1) x s1")
  obtain r3 s3 evs3 where 3: "setitem (k * 2) b s2 = (r3, s3, evs3)"
    by (cases "setitem (k * 2) b s2")
  have "write_frames k a x b s =
       (case r1 of Inl e \<Rightarrow> (Inl e, s1, evs1)
        | Inr _ \<Rightarrow> (case r2 of Inl e \<Rightarrow> (Inl e, s2, evs1 @ evs2)
                    | Inr _ \<Rightarrow> (r3, s3, evs1 @ evs2 @ evs3)))"
    unfolding write_frames_def 1
    by (cases r1; cases r2) (simp_all add: 2 3)
  with assms 1 2 3 show thesis by (intro that[of r1 s1 evs1 r2 s2 evs2 r3 s3 evs3]) simp_all
qed

lemma write_frames_events:
  assumes "write_frames k a x b s = (r, s', evs)" and "ev \<in> set evs"
  shows "\<exists>n w. ev = SetItem n w"
  using assms(1)
proof (cases rule: write_frames_cases)
  case (1 r1 s1 evs1 r2 s2 evs2 r3 s3 evs3)
  have e1: "ev \<in> set evs1 \<Longrightarrow> ?thesis"
    using 1(1) by (cases "k = 1") (auto dest: setitem_events)
  have e2: "ev \<in> set evs2 \<Longrightarrow> ?thesis" using 1(2) by (rule setitem_events)
  have e3: "ev \<in> set evs3 \<Longrightarrow> ?thesis" using 1(3) by (rule setitem_events)
  from 1(4) assms(2) have "ev \<in> set evs1 \<or> ev \<in> set evs2 \<or> ev \<in> set evs3"
    by (cases r1; cases r2) auto
  with e1 e2 e3 show ?thesis by blast
qed

lemma write_frames_frame:
  assumes "write_frames k a x b s = (r, s', evs)"
  shows "processing_queue s' = processing_queue s \<and> pause s' = pause s
    \<and> running s' = running s \<and> processor_objects s' = processor_objects s
    \<and> length (processed_frames s') = length (processed_frames s)"
  using assms
proof (cases rule: write_frames_cases)
  case (1 r1 s1 evs1 r2 s2 evs2 r3 s3 evs3)
  have f1: "processing_queue s1 = processing_queue s \<and> pause s1 = pause s
    \<and> running s1 = running s \<and> processor_objects s1 = processor_objects s
    \<and> length (processed_frames s1) = length (processed_frames s)"
    using 1(1) by (cases "k = 1") (auto dest: setitem_frame)
  have f2: "processing_queue s2 = processing_queue s1 \<and> pause s2 = pause s1
    \<and> running s2 = running s1 \<and> processor_objects s2 = processor_objects s1
    \<and> length (processed_frames s2) = length (processed_frames s1)"
    using setitem_frame[OF 1(2)] by simp
  have f3: "processing_queue s3 = processing_queue s2 \<and> pause s3 = pause s2
    \<and> running s3 = running s2 \<and> processor_objects s3 = processor_objects s2
    \<and> length (processed_frames s3) = length (processed_frames s2)"
    using setitem_frame[OF 1(3)] by simp
  from 1(4) have "s' = s1 \<or> s' = s2 \<or> s' = s3" by (cases r1; cases r2) auto
  with f1 f2 f3 show ?thesis by auto
qed

lemma setitem_in_range:
  assumes "0 \<le> i" and "i < int (length (processed_frames s))"
  shows "\<exists>s' evs. setitem i v s = (Inr (), s', evs)"
  using assms by (simp add: setitem_def py_setitem_def py_position_def Let_def)

lemma write_frames_in_range:
  assumes "1 \<le> k" and "2 * k < int (length (processed_frames s))"
  shows "\<exists>s' evs. write_frames k a x b s = (Inr (), s', evs)"
proof -
  obtain r s' evs where w: "write_frames k a x b s = (r, s', evs)"
    by (cases "write_frames k a x b s")
  from w show ?thesis
  proof (cases rule: write_frames_cases)
    case (1 r1 s1 evs1 r2 s2 evs2 r3 s3 evs3)
    have l1: "length (processed_frames s1) = length (processed_frames s)"
      using 1(1) by (cases "k = 1") (auto dest: setitem_frame)
    have l2: "length (processed_frames s2) = length (processed_frames s1)"
      using setitem_frame[OF 1(2)] by simp
    have "0 < int (length (processed_frames s))" using assms by linarith
    from setitem_in_range[OF _ this, of a] have "\<exists>s' evs. setitem 0 a s = (Inr (), s', evs)"
      by simp
    with 1(1) have r1: "r1 = Inr ()" by (cases "k = 1") auto
    have r2: "r2 = Inr ()"
      using 1(2) setitem_in_range[of "k * 2 - 1" s1 x] assms l1 by auto
    have r3: "r3 = Inr ()"
      using 1(3) setitem_in_range[of "k * 2" s2 b] assms l1 l2 by auto
    from 1(4) r1 r2 r3 have "r = Inr ()" by simp
    with w show ?thesis by blast
  qed
qed

lemma write_frames_slots:
  assumes "write_frames k a x b s = (Inr u, s', evs)"
  shows "py_getitem (processed_frames s') (k * 2) = Inr (Some b)"
    and "\<exists>v. py_getitem (processed_frames s') (k * 2 - 1) = Inr (Some v)"
    and "1 \<le> k \<Longrightarrow> py_getitem (processed_frames s') (k * 2 - 1) = Inr (Some x)"
  using assms
proof (atomize (full), cases rule: write_frames_ok)
  case (1 s1 evs1 s2 evs2 evs3)
  have a: "py_getitem (processed_frames s') (k * 2) = Inr (Some b)"
    using 1(3) by (rule setitem_stored(1))
  have m: "py_getitem (processed_frames s2) (k * 2 - 1) = Inr (Some x)"
    using 1(2) by (rule setitem_stored(1))
  have b: "\<exists>v. py_getitem (processed_frames s') (k * 2 - 1) = Inr (Some v)"
    using 1(3) m by (rule setitem_populated)
  have c: "py_getitem (processed_frames s') (k * 2 - 1) = Inr (Some x)" if "1 \<le> k"
  proof -
    from that have "py_position (processed_frames s2) (k * 2 - 1)
                    \<noteq> py_position (processed_frames s2) (k * 2)"
      by (simp add: py_position_def)
    from setitem_stored(2)[OF 1(3) this] m show ?thesis by simp
  qed
  from a b c show "py_getitem (processed_frames s') (k * 2) = Inr (Some b) \<and>
    (\<exists>v. py_getitem (processed_frames s') (k * 2 - 1) = Inr (Some v)) \<and>
    (1 \<le> k \<longrightarrow> py_getitem (processed_frames s') (k * 2 - 1) = Inr (Some x))"
    by blast
qed

lemma setitem_keeps_slot0:
  assumes "setitem i v s = (r, s', evs)" and "1 \<le> i"
  shows "py_getitem (processed_frames s') 0 = py_getitem (processed_frames s) 0
         \<and> (\<forall>w. SetItem 0 w \<notin> set evs)"
  using assms(1)
proof (cases rule: setitem_cases)
  case out_of_range
  then show ?thesis by simp
next
  case stored
  from assms(2) have p: "py_position (processed_frames s) i = i"
    "py_position (processed_frames s) 0 = 0" by (simp_all add: py_position_def)
  with assms(2) have "py_position (processed_frames s) 0 \<noteq> py_position (processed_frames s) i"
    by simp
  from setitem_stored(2)[OF assms(1)[unfolded stored(1)] this] stored(2) p assms(2)
  show ?thesis by simp
qed

lemma setitem_slot0:
  assumes "setitem 0 a s = (r, s', evs)"
  shows "(\<forall>w. SetItem 0 w \<in> set evs \<longrightarrow> w = a)
         \<and> (\<forall>u. r = Inr u \<longrightarrow> py_getitem (processed_frames s') 0 = Inr (Some a))"
  using assms
proof (cases rule: setitem_cases)
  case out_of_range
  then show ?thesis by simp
next
  case stored
  from setitem_stored(1)[OF assms[unfolded stored(1)]] stored(2) show ?thesis by simp
qed

lemma write_frames_slot0:
  assumes "write_frames k a x b s = (r, s', evs)" and "1 \<le> k"
  shows "(\<forall>w. SetItem 0 w \<in> set evs \<longrightarrow> k = 1 \<and> w = a)
         \<and> (k \<noteq> 1 \<longrightarrow> py_getitem (processed_frames s') 0 = py_getitem (processed_frames s) 0)
         \<and> (k = 1 \<and> r = Inr () \<longrightarrow> py_getitem (processed_frames s') 0 = Inr (Some a))"
  using assms(1)
proof (cases rule: write_frames_cases)
  case (1 r1 s1 evs1 r2 s2 evs2 r3 s3 evs3)
  have k2: "py_getitem (processed_frames s2) 0 = py_getitem (processed_frames s1) 0
            \<and> (\<forall>w. SetItem 0 w \<notin> set evs2)"
    using assms(2) by (intro setitem_keeps_slot0[OF 1(2)]) simp
  have k3: "py_getitem (processed_frames s3) 0 = py_getitem (processed_frames s2) 0
            \<and> (\<forall>w. SetItem 0 w \<notin> set evs3)"
    using assms(2) by (intro setitem_keeps_slot0[OF 1(3)]) simp
  show ?thesis
  proof (cases "k = 1")
    case True
    with 1(1) have "setitem 0 a s = (r1, s1, evs1)" by simp
    from setitem_slot0[OF this]
    have f: "\<forall>w. SetItem 0 w \<in> set evs1 \<longrightarrow> w = a"
      "\<forall>u. r1 = Inr u \<longrightarrow> py_getitem (processed_frames s1) 0 = Inr (Some a)"
      by simp_all
    from 1(4) f k2 k3 True show ?thesis
      by (cases r1; cases r2) auto
  next
    case False
    with 1(1) have "r1 = Inr ()" "s1 = s" "evs1 = []" by simp_all
    with 1(4) k2 k3 False show ?thesis
      by (cases r2) auto
  qed
qed

lemma processor_object_cases:
  assumes "processor_object c algorithm s = (r, s', evs)"
  obtains (cached) p where "processor_objects s algorithm = Some p"
      "r = Inr p" "s' = s" "evs = []"
    | (unknown) "processor_objects s algorithm = None" "ALGORITHM_CLASSES c algorithm = None"
      "r = Inl KeyError" "s' = s" "evs = [Lookup algorithm]"
    | (failed) cls e where "processor_objects s algorithm = None"
      "ALGORITHM_CLASSES c algorithm = Some cls" "cls 0 = Inl e"
      "r = Inl e" "s' = s" "evs = [Lookup algorithm, Construct algorithm 0]"
    | (constructed) cls p where "processor_objects s algorithm = None"
      "ALGORITHM_CLASSES c algorithm = Some cls" "cls 0 = Inr p"
      "r = Inr p" "s' = s\<lparr>processor_objects := (processor_objects s)(algorithm \<mapsto> p)\<rparr>"
      "evs = [Lookup algorithm, Construct algorithm 0]"
proof (cases "processor_objects s algorithm")
  case (Some p)
  with assms show thesis by (intro cached[of p]) (simp_all add: processor_object_def)
next
  case None
  show thesis
  proof (cases "ALGORITHM_CLASSES c algorithm")
    case n: None
    with None assms show thesis by (intro unknown) (simp_all add: processor_object_def)
  next
    case (Some cls)
    show thesis
    proof (cases "cls 0")
      case (Inl e)
      with None Some assms show thesis
        by (intro failed[of cls e]) (simp_all add: processor_object_def)
    next
      case (Inr p)
      with None Some assms show thesis
        by (intro constructed[of cls p]) (simp_all add: processor_object_def)
    qed
  qed
qed

lemma processor_object_frame:
  assumes "processor_object c algorithm s = (r, s', evs)"
  shows "processing_queue s' = processing_queue s \<and> pause s' = pause s
    \<and> running s' = running s \<and> processed_frames s' = processed_frames s
    \<and> (\<forall>a p. processor_objects s a = Some p \<longrightarrow> processor_objects s' a = Some p)
    \<and> set evs \<subseteq> {Lookup algorithm, Construct algorithm 0}
    \<and> (\<forall>p. r = Inr p \<longrightarrow> processor_objects s' algorithm = Some p)"
  using assms by (cases rule: processor_object_cases) auto

lemma interpolated_image_cases:
  assumes "interpolated_image c image0 image1 ratio threshold algorithm s = (r, s', evs)"
  obtains (reused) "threshold \<le> ratio" "r = Inr image0" "s' = s" "evs = []"
    | (no_processor) e where "ratio < threshold"
        "processor_object c algorithm s = (Inl e, s', evs)" "r = Inl e"
    | (invoked) p evs1 where "ratio < threshold"
        "processor_object c algorithm s = (Inr p, s', evs1)"
        "r = process c p image0 image1" "evs = evs1 @ [Process algorithm image0 image1]"
proof (cases "ratio < threshold")
  case False
  with assms show thesis by (intro reused) (simp_all add: interpolated_image_def)
next
  case True
  with assms have "then_do (processor_object c algorithm s)
          (\<lambda>p s'. (process c p image0 image1, s', [Process algorithm image0 image1]))
        = (r, s', evs)" by (simp add: interpolated_image_def)
  then show thesis
  proof (cases rule: then_do_cases)
    case (raised e)
    with True show thesis by (intro no_processor[of e]) simp_all
  next
    case (went_on p s1 evs1 evs2)
    with True show thesis by (intro invoked[of p evs1]) simp_all
  qed
qed

lemma interpolated_image_frame:
  assumes "interpolated_image c image0 image1 ratio threshold algorithm s = (r, s', evs)"
  shows "processing_queue s' = processing_queue s \<and> pause s' = pause s
    \<and> running s' = running s \<and> processed_frames s' = processed_frames s
    \<and> (\<forall>a p. processor_objects s a = Some p \<longrightarrow> processor_objects s' a = Some p)
    \<and> set evs \<subseteq> {Lookup algorithm, Construct algorithm 0, Process algorithm image0 image1}"
  using assms
proof (cases rule: interpolated_image_cases)
  case reused
  then show ?thesis by simp
next
  case (no_processor e)
  from processor_object_frame[OF this(2)] show ?thesis by auto
next
  case (invoked p evs1)
  from processor_object_frame[OF this(2)] invoked(4) show ?thesis by auto
qed

lemma process_job_cases:
  assumes "process_job c (k, (Some image0, image1), (threshold, algorithm)) s = (r, s', evs)"
  obtains (no_ratio) e where "difference_ratio c image0 image1 = Inl e"
      "r = Inl e" "s' = s" "evs = [Difference image0 image1]"
    | (no_image) ratio e evs1 where "difference_ratio c image0 image1 = Inr ratio"
      "interpolated_image c image0 image1 ratio threshold algorithm s = (Inl e, s', evs1)"
      "r = Inl e" "evs = Difference image0 image1 # evs1"
    | (stored) ratio x s1 evs1 evs2 where "difference_ratio c image0 image1 = Inr ratio"
      "interpolated_image c image0 image1 ratio threshold algorithm s = (Inr x, s1, evs1)"
      "write_frames k image0 x image1 s1 = (r, s', evs2)"
      "evs = Difference image0 image1 # evs1 @ evs2"
proof -
  from assms have "then_do (difference_ratio c image0 image1, s, [Difference image0 image1])
       (\<lambda>ratio s1.
          then_do (interpolated_image c image0 image1 ratio threshold algorithm s1)
            (\<lambda>interpolated s2. write_frames k image0 interpolated image1 s2))
     = (r, s', evs)"
    by (simp add: process_job_def)
  then show thesis
  proof (cases rule: then_do_cases)
    case (raised e)
    then show thesis by (intro no_ratio[of e]) simp_all
  next
    case (went_on ratio s0 evs0 evs')
    then have r: "difference_ratio c image0 image1 = Inr ratio" "s0 = s"
      "evs0 = [Difference image0 image1]" by simp_all
    from went_on(2) show thesis
    proof (cases rule: then_do_cases)
      case (raised e)
      with r went_on(3) show thesis by (intro no_image[of ratio e evs']) simp_all
    next
      case inner: (went_on x s1 evs1 evs2)
      with r went_on(3) show thesis by (intro stored[of ratio x s1 evs1 evs2]) simp_all
    qed
  qed
qed

lemma iteration_job:
  assumes "\<not> pause s" and "processing_queue s = job # rest"
  shows "iteration c s =
           (case process_job c job (s\<lparr>processing_queue := rest\<rparr>) of
              (Inr _, s', evs) \<Rightarrow> (Continue, s', Get job # evs)
            | (Inl e, s', evs) \<Rightarrow> (Break, s', Get job # evs @ except e))"
  using assms by (simp add: iteration_def)

lemma iteration_Continue:
  assumes "\<not> pause s"
    and "processing_queue s = (k, (Some image0, image1), (threshold, algorithm)) # rest"
    and "iteration c s = (Continue, s', evs)"
  obtains ratio x s1 evs1 evs2 where "difference_ratio c image0 image1 = Inr ratio"
      "interpolated_image c image0 image1 ratio threshold algorithm
         (s\<lparr>processing_queue := rest\<rparr>) = (Inr x, s1, evs1)"
      "write_frames k image0 x image1 s1 = (Inr (), s', evs2)"
      "evs = Get (k, (Some image0, image1), (threshold, algorithm))
               # Difference image0 image1 # evs1 @ evs2"
proof -
  let ?job = "(k, (Some image0, image1), (threshold, algorithm))"
  obtain r s2 evs' where p: "process_job c ?job (s\<lparr>processing_queue := rest\<rparr>) = (r, s2, evs')"
    by (cases "process_job c ?job (s\<lparr>processing_queue := rest\<rparr>)")
  from assms(3) iteration_job[OF assms(1,2), of c] p
  have r: "r = Inr ()" "s2 = s'" "evs = Get ?job # evs'"
    by (cases r; simp)+
  from p show thesis
  proof (cases rule: process_job_cases)
    case (no_ratio e)
    with r show thesis by simp
  next
    case (no_image ratio e evs1)
    with r show thesis by simp
  next
    case (stored ratio x s1 evs1 evs2)
    with r show thesis by (intro that[of ratio x s1 evs1 evs2]) simp_all
  qed
qed

subsection \<open>Where the frames go\<close>

text \<open>
  Claim C1. When an iteration takes a job \<open>(k, (image0, image1), ...)\<close> whose first frame
  is present and completes without an exception, then afterwards reading
  \<open>processed_frames[2k]\<close> yields \<open>image1\<close> itself and reading \<open>processed_frames[2k - 1]\<close>
  yields a frame (the slot is not \<open>None\<close>). Nothing is assumed about the difference
  ratio, so this holds in both branches of the threshold test. Slots are read the way
  Python reads them (\<open>py_getitem\<close>), so the statement needs no assumption on \<open>k\<close>.
\<close>

theorem second_frame_stored:
  assumes "\<not> pause s"
    and "processing_queue s = (k, (Some image0, image1), (threshold, algorithm)) # rest"
    and "iteration c s = (Continue, s', evs)"
  shows "py_getitem (processed_frames s') (k * 2) = Inr (Some image1)
         \<and> (\<exists>v. py_getitem (processed_frames s') (k * 2 - 1) = Inr (Some v))"
  using assms
proof (cases rule: iteration_Continue)
  case (1 ratio x s1 evs1 evs2)
  from write_frames_slots(1,2)[OF 1(3)] show ?thesis by simp
qed

text \<open>
  Claim C2. Take a job \<open>(k, (image0, image1), (threshold, algorithm))\<close> with a positive
  frame index (the job data model of the specification) whose first frame is present, and
  an iteration that completes without an exception. If the difference ratio is below the
  threshold, slot \<open>2k - 1\<close> holds what \<open>process(image0, image1)\<close> returned on the
  processor object cached for the algorithm, and that call was made. If the ratio is at or
  above the threshold, slot \<open>2k - 1\<close> holds \<open>image0\<close> itself and no processor was invoked.
\<close>

theorem interpolated_frame_stored:
  assumes "\<not> pause s"
    and "processing_queue s = (k, (Some image0, image1), (threshold, algorithm)) # rest"
    and "iteration c s = (Continue, s', evs)"
    and "difference_ratio c image0 image1 = Inr ratio"
    and "1 \<le> k"
  shows "(ratio < threshold \<longrightarrow>
            (\<exists>p v. processor_objects s' algorithm = Some p
                   \<and> process c p image0 image1 = Inr v
                   \<and> Process algorithm image0 image1 \<in> set evs
                   \<and> py_getitem (processed_frames s') (k * 2 - 1) = Inr (Some v)))
         \<and> (threshold \<le> ratio \<longrightarrow>
              py_getitem (processed_frames s') (k * 2 - 1) = Inr (Some image0)
              \<and> (\<forall>a x y. Process a x y \<notin> set evs))"
  using assms(1,2,3)
proof (cases rule: iteration_Continue)
  case (1 ratio' x s1 evs1 evs2)
  with assms(4) have ratio: "ratio' = ratio" by simp
  have slot: "py_getitem (processed_frames s') (k * 2 - 1) = Inr (Some x)"
    using write_frames_slots(3)[OF 1(3) assms(5)] .
  have cache: "processor_objects s' = processor_objects s1"
    using write_frames_frame[OF 1(3)] by simp
  have no_call: "Process a y z \<notin> set evs2" for a y z
    using write_frames_events[OF 1(3)] by auto
  from 1(2)[unfolded ratio] show ?thesis
  proof (cases rule: interpolated_image_cases)
    case reused
    with slot 1(4) no_call show ?thesis by simp
  next
    case (no_processor e)
    then show ?thesis by simp
  next
    case (invoked p evs0)
    from processor_object_frame[OF invoked(2)]
    have "processor_objects s1 algorithm = Some p" by simp
    with invoked slot cache 1(4) show ?thesis by auto
  qed
qed

lemma iteration_job_cases:
  assumes "\<not> pause s" and "processing_queue s = job # rest"
    and "iteration c s = (out, s', evs)"
  obtains (went_on) evs' where "process_job c job (s\<lparr>processing_queue := rest\<rparr>) = (Inr (), s', evs')"
      "out = Continue" "evs = Get job # evs'"
    | (broke) e evs' where "process_job c job (s\<lparr>processing_queue := rest\<rparr>) = (Inl e, s', evs')"
      "out = Break" "evs = Get job # evs' @ except e"
proof -
  obtain r s2 evs' where p: "process_job c job (s\<lparr>processing_queue := rest\<rparr>) = (r, s2, evs')"
    by (cases "process_job c job (s\<lparr>processing_queue := rest\<rparr>)")
  show thesis
  proof (cases r)
    case (Inl e)
    with assms(3) iteration_job[OF assms(1,2), of c] p show thesis
      by (intro broke[of e evs']) simp_all
  next
    case (Inr u)
    with assms(3) iteration_job[OF assms(1,2), of c] p show thesis
      by (intro went_on[of evs']) simp_all
  qed
qed

lemma process_job_slot0:
  assumes "process_job c (k, (Some image0, image1), (threshold, algorithm)) s = (r, s', evs)"
    and "1 \<le> k"
  shows "(\<forall>w. SetItem 0 w \<in> set evs \<longrightarrow> k = 1 \<and> w = image0)
         \<and> (k \<noteq> 1 \<longrightarrow> py_getitem (processed_frames s') 0 = py_getitem (processed_frames s) 0)
         \<and> (k = 1 \<and> r = Inr () \<longrightarrow> py_getitem (processed_frames s') 0 = Inr (Some image0))"
  using assms(1)
proof (cases rule: process_job_cases)
  case (no_ratio e)
  then show ?thesis by simp
next
  case (no_image ratio e evs1)
  from interpolated_image_frame[OF no_image(2)] no_image(3,4) show ?thesis by auto
next
  case (stored ratio x s1 evs1 evs2)
  from interpolated_image_frame[OF stored(2)]
  have "processed_frames s1 = processed_frames s" "\<forall>w. SetItem 0 w \<notin> set evs1" by auto
  with write_frames_slot0[OF stored(3) assms(2)] stored(4) show ?thesis by auto
qed

text \<open>
  Claim C5. Take an iteration that takes a job with a positive frame index \<open>k\<close> (the job
  data model of the specification) whose first frame is present, however the iteration ends.
  Every store into slot 0 it makes happens with \<open>k = 1\<close> and stores \<open>image0\<close>; if
  \<open>k \<noteq> 1\<close>, slot 0 reads afterwards as it did before; if \<open>k = 1\<close> and the iteration
  completes without an exception, slot 0 holds \<open>image0\<close>.
\<close>

theorem slot_zero_only_first_pair:
  assumes "\<not> pause s"
    and "processing_queue s = (k, (Some image0, image1), (threshold, algorithm)) # rest"
    and "iteration c s = (out, s', evs)"
    and "1 \<le> k"
  shows "(\<forall>w. SetItem 0 w \<in> set evs \<longrightarrow> k = 1 \<and> w = image0)
         \<and> (k \<noteq> 1 \<longrightarrow> py_getitem (processed_frames s') 0 = py_getitem (processed_frames s) 0)
         \<and> (k = 1 \<and> out = Continue \<longrightarrow> py_getitem (processed_frames s') 0 = Inr (Some image0))"
  using assms(1,2,3)
proof (cases rule: iteration_job_cases)
  case (went_on evs')
  from process_job_slot0[OF went_on(1) assms(4)] went_on(2,3) show ?thesis by auto
next
  case (broke e evs')
  from process_job_slot0[OF broke(1) assms(4)] broke(2,3) show ?thesis
    by (auto simp: except_def)
qed

lemma stub_ratio_near: "difference_ratio stub 10 20 = Inr (200 / 51)"
  by (simp add: difference_ratio_def stub_def)

lemma stub_ratio_far: "difference_ratio stub 10 200 = Inr (3800 / 51)"
  by (simp add: difference_ratio_def stub_def)

lemma stub_Rife: "Rife stub device = Inr (nat device)"
  by (simp add: stub_def)

lemma stub_process: "process stub p a b = Inr (a + b)"
  by (simp add: stub_def)

lemma near_pair_run:
  "iteration stub near_pair
   = (Continue, near_pair_done,
      [Get (1, (Some 10, 20), (10, ''rife'')), Difference 10 20, Lookup ''rife'',
       Construct ''rife'' 0, Process ''rife'' 10 20, SetItem 0 10, SetItem 1 30, SetItem 2 20])"
  by (simp add: iteration_def process_job_def stub_ratio_near interpolated_image_def
      processor_object_def ALGORITHM_CLASSES_def write_frames_def setitem_def py_setitem_def
      py_position_def idle_def near_pair_def near_pair_done_def stub_Rife stub_process)

lemma scene_cut_run:
  "iteration stub scene_cut
   = (Continue, scene_cut_done,
      [Get (2, (Some 10, 200), (10, ''unknown'')), Difference 10 200,
       SetItem 3 10, SetItem 4 200])"
  by (simp add: iteration_def process_job_def stub_ratio_far interpolated_image_def
      write_frames_def setitem_def py_setitem_def py_position_def idle_def
      scene_cut_def scene_cut_done_def)

lemma near_pair_queue:
  "\<not> pause near_pair"
  "processing_queue near_pair = (1, (Some 10, 20), (10, ''rife'')) # []"
  by (simp_all add: near_pair_def idle_def)

lemma scene_cut_queue:
  "\<not> pause scene_cut"
  "processing_queue scene_cut = (2, (Some 10, 200), (10, ''unknown'')) # []"
  by (simp_all add: scene_cut_def idle_def)

theorem second_frame_stored_witness:
  "\<not> pause near_pair \<and> \<not> pause scene_cut
   \<and> fst (iteration stub near_pair) = Continue \<and> fst (iteration stub scene_cut) = Continue
   \<and> py_getitem (processed_frames near_pair_done) (1 * 2) = Inr (Some 20)
   \<and> (\<exists>v. py_getitem (processed_frames near_pair_done) (1 * 2 - 1) = Inr (Some v))
   \<and> py_getitem (processed_frames scene_cut_done) (2 * 2) = Inr (Some 200)
   \<and> (\<exists>v. py_getitem (processed_frames scene_cut_done) (2 * 2 - 1) = Inr (Some v))"
  using second_frame_stored [OF near_pair_queue near_pair_run]
    second_frame_stored [OF scene_cut_queue scene_cut_run]
    near_pair_queue(1) scene_cut_queue(1)
  by (simp add: near_pair_run scene_cut_run)

theorem interpolated_frame_stored_witness:
  "\<not> pause near_pair \<and> fst (iteration stub near_pair) = Continue
   \<and> difference_ratio stub 10 20 = Inr (200 / 51) \<and> (200 / 51 :: real) < 10
   \<and> processor_objects near_pair_done ''rife'' = Some 0
   \<and> process stub 0 10 20 = Inr 30
   \<and> py_getitem (processed_frames near_pair_done) (1 * 2 - 1) = Inr (Some 30)"
proof -
  have k: "(1::int) \<le> 1" by simp
  from interpolated_frame_stored [OF near_pair_queue near_pair_run stub_ratio_near k]
  have "\<exists>p v. processor_objects near_pair_done ''rife'' = Some p
          \<and> process stub p 10 20 = Inr v
          \<and> py_getitem (processed_frames near_pair_done) (1 * 2 - 1) = Inr (Some v)"
    by simp
  then show ?thesis
    using near_pair_queue(1)
    by (auto simp: near_pair_run stub_ratio_near stub_process near_pair_done_def)
qed

theorem slot_zero_only_first_pair_witness:
  "\<not> pause near_pair \<and> fst (iteration stub near_pair) = Continue \<and> (1::int) \<le> 1
   \<and> py_getitem (processed_frames near_pair_done) 0 = Inr (Some 10)
   \<and> \<not> pause scene_cut \<and> (1::int) \<le> 2
   \<and> py_getitem (processed_frames scene_cut_done) 0
       = py_getitem (processed_frames scene_cut) 0"
proof -
  have k1: "(1::int) \<le> 1" and k2: "(1::int) \<le> 2" by simp_all
  from slot_zero_only_first_pair [OF near_pair_queue near_pair_run k1]
    slot_zero_only_first_pair [OF scene_cut_queue scene_cut_run k2]
    near_pair_queue(1) scene_cut_queue(1)
  show ?thesis by (simp add: near_pair_run)
qed

subsection \<open>The processor cache\<close>

lemma processor_object_cached:
  assumes "processor_objects s a = Some p"
    and "processor_object c algorithm s = (r, s', evs)"
  shows "processor_objects s' a = Some p \<and> Lookup a \<notin> set evs
         \<and> (\<forall>d. Construct a d \<notin> set evs)"
  using assms(2)
proof (cases rule: processor_object_cases)
  case (cached q)
  with assms(1) show ?thesis by simp
next
  case unknown
  with assms(1) show ?thesis by auto
next
  case (failed cls e)
  with assms(1) show ?thesis by auto
next
  case (constructed cls q)
  with assms(1) show ?thesis by auto
qed

lemma interpolated_image_cached:
  assumes "processor_objects s a = Some p"
    and "interpolated_image c image0 image1 ratio threshold algorithm s = (r, s', evs)"
  shows "processor_objects s' a = Some p \<and> Lookup a \<notin> set evs
         \<and> (\<forall>d. Construct a d \<notin> set evs)"
  using assms(2)
proof (cases rule: interpolated_image_cases)
  case reused
  with assms(1) show ?thesis by simp
next
  case (no_processor e)
  from processor_object_cached[OF assms(1) this(2)] show ?thesis .
next
  case (invoked q evs1)
  from processor_object_cached[OF assms(1) this(2)] invoked(4) show ?thesis by simp
qed

lemma process_job_cached:
  assumes "processor_objects s a = Some p"
    and "process_job c job s = (r, s', evs)"
  shows "processor_objects s' a = Some p \<and> Lookup a \<notin> set evs
         \<and> (\<forall>d. Construct a d \<notin> set evs)"
proof -
  obtain k image0_opt image1 threshold algorithm
    where job: "job = (k, (image0_opt, image1), (threshold, algorithm))"
    by (cases job) auto
  show ?thesis
  proof (cases image0_opt)
    case None
    with assms job show ?thesis by (simp add: process_job_def)
  next
    case (Some image0)
    from assms(2)[unfolded job Some] show ?thesis
    proof (cases rule: process_job_cases)
      case (no_ratio e)
      with assms(1) show ?thesis by simp
    next
      case (no_image ratio e evs1)
      from interpolated_image_cached[OF assms(1) this(2)] no_image(4) show ?thesis by simp
    next
      case (stored ratio x s1 evs1 evs2)
      from write_frames_events[OF stored(3)]
      have "Lookup a \<notin> set evs2" "\<forall>d. Construct a d \<notin> set evs2" by auto
      with interpolated_image_cached[OF assms(1) stored(2)] write_frames_frame[OF stored(3)]
        stored(4)
      show ?thesis by simp
    qed
  qed
qed

lemma iteration_cached:
  assumes "processor_objects s a = Some p"
    and "iteration c s = (out, s', evs)"
  shows "processor_objects s' a = Some p \<and> Lookup a \<notin> set evs
         \<and> (\<forall>d. Construct a d \<notin> set evs)"
proof (cases "pause s")
  case True
  with assms show ?thesis by (auto simp: iteration_def)
next
  case False
  show ?thesis
  proof (cases "processing_queue s")
    case Nil
    with False assms show ?thesis by (auto simp: iteration_def)
  next
    case (Cons job rest)
    have c: "processor_objects (s\<lparr>processing_queue := rest\<rparr>) a = Some p"
      using assms(1) by simp
    from False Cons assms(2) show ?thesis
    proof (cases rule: iteration_job_cases)
      case (went_on evs')
      from process_job_cached[OF c went_on(1)] went_on(3) show ?thesis by simp
    next
      case (broke e evs')
      from process_job_cached[OF c broke(1)] broke(3) show ?thesis
        by (simp add: except_def)
    qed
  qed
qed

lemma loop_cached:
  assumes "processor_objects s a = Some p" and "loop c ts s = (st, s', evs)"
  shows "processor_objects s' a = Some p \<and> Lookup a \<notin> set evs
         \<and> (\<forall>d. Construct a d \<notin> set evs)"
  using assms
proof (induction ts arbitrary: s st s' evs)
  case Nil
  then show ?case by simp
next
  case (Cons t ts)
  show ?case
  proof (cases t)
    case Iterate
    show ?thesis
    proof (cases "running s")
      case False
      with Cons.prems Iterate show ?thesis by simp
    next
      case True
      obtain out s1 evs1 where i: "iteration c s = (out, s1, evs1)"
        by (cases "iteration c s")
      note c1 = iteration_cached[OF Cons.prems(1) i]
      show ?thesis
      proof (cases out)
        case Break
        with Cons.prems(2) Iterate True i c1 show ?thesis by auto
      next
        case Continue
        obtain st2 s2 evs2 where l: "loop c ts s1 = (st2, s2, evs2)"
          by (cases "loop c ts s1")
        from c1 have "processor_objects s1 a = Some p" by simp
        from Cons.IH[OF this l] c1 Cons.prems(2) Iterate True i Continue l
        show ?thesis by auto
      qed
    qed
  next
    case (SetPause b)
    with Cons.prems have "loop c ts (s\<lparr>pause := b\<rparr>) = (st, s', evs)"
      and "processor_objects (s\<lparr>pause := b\<rparr>) a = Some p" by simp_all
    from Cons.IH[OF this(2,1)] show ?thesis .
  next
    case (Put job)
    with Cons.prems
    have "loop c ts (s\<lparr>processing_queue := processing_queue s @ [job]\<rparr>) = (st, s', evs)"
      and "processor_objects (s\<lparr>processing_queue := processing_queue s @ [job]\<rparr>) a = Some p"
      by simp_all
    from Cons.IH[OF this(2,1)] show ?thesis .
  next
    case Sigterm
    with Cons.prems have "loop c ts (stop s) = (st, s', evs)"
      and "processor_objects (stop s) a = Some p" by (simp_all add: stop_def)
    from Cons.IH[OF this(2,1)] show ?thesis .
  qed
qed

text \<open>
  Claim C4. When a name that is not in the cache is requested and the request succeeds with
  the processor object \<open>p\<close>, then \<open>p\<close> is what the class registered under the name
  returned for device index 0, the request made exactly one lookup and one construction,
  and the cache now maps the name to \<open>p\<close>. From then on, whatever the worker does
  (any schedule of the loop), no processor is constructed for that name again, and a
  request for the name returns \<open>p\<close>, makes no call and leaves the state as it is.
\<close>

theorem processor_constructed_once:
  assumes "processor_objects s algorithm = None"
    and "processor_object c algorithm s = (Inr p, s1, evs1)"
  shows "(\<exists>cls. ALGORITHM_CLASSES c algorithm = Some cls \<and> cls 0 = Inr p)
         \<and> evs1 = [Lookup algorithm, Construct algorithm 0]
         \<and> s1 = s\<lparr>processor_objects := (processor_objects s)(algorithm \<mapsto> p)\<rparr>
         \<and> (\<forall>ts st s2 evs. loop c ts s1 = (st, s2, evs) \<longrightarrow>
               (\<forall>d. Construct algorithm d \<notin> set evs)
               \<and> processor_object c algorithm s2 = (Inr p, s2, []))"
  using assms(2)
proof (cases rule: processor_object_cases)
  case (cached q)
  with assms(1) show ?thesis by simp
next
  case unknown
  then show ?thesis by simp
next
  case (failed cls e)
  then show ?thesis by simp
next
  case (constructed cls q)
  then have c: "processor_objects s1 algorithm = Some p" by simp
  have "(\<forall>d. Construct algorithm d \<notin> set evs)
        \<and> processor_object c algorithm s2 = (Inr p, s2, [])"
    if "loop c ts s1 = (st, s2, evs)" for ts st s2 evs
    using loop_cached[OF c that] by (simp add: processor_object_def)
  with constructed show ?thesis by blast
qed

theorem processor_constructed_once_witness:
  "processor_objects idle ''rife'' = None
   \<and> processor_object stub ''rife'' idle
       = (Inr 0, idle\<lparr>processor_objects := [''rife'' \<mapsto> 0]\<rparr>,
          [Lookup ''rife'', Construct ''rife'' 0])
   \<and> Rife stub 0 = Inr 0
   \<and> loop stub [] (idle\<lparr>processor_objects := [''rife'' \<mapsto> 0]\<rparr>)
       = (Looping, idle\<lparr>processor_objects := [''rife'' \<mapsto> 0]\<rparr>, [])
   \<and> processor_object stub ''rife'' (idle\<lparr>processor_objects := [''rife'' \<mapsto> 0]\<rparr>)
       = (Inr 0, idle\<lparr>processor_objects := [''rife'' \<mapsto> 0]\<rparr>, [])"
proof -
  let ?s1 = "idle\<lparr>processor_objects := [''rife'' \<mapsto> 0]\<rparr>"
  have h1: "processor_objects idle ''rife'' = None" by (simp add: idle_def)
  have h2: "processor_object stub ''rife'' idle
            = (Inr 0, ?s1, [Lookup ''rife'', Construct ''rife'' 0])"
    by (simp add: processor_object_def ALGORITHM_CLASSES_def stub_Rife idle_def)
  have h3: "loop stub [] ?s1 = (Looping, ?s1, [])" by simp
  from processor_constructed_once [OF h1 h2]
  have "processor_object stub ''rife'' ?s1 = (Inr 0, ?s1, [])"
    using h3 by blast
  with h1 h2 h3 show ?thesis by (simp add: stub_Rife)
qed

subsection \<open>Failing construction and the scene change branch\<close>

text \<open>
  Claim C8. The worker is running and not paused, the job at the head of the queue has its
  first frame, its ratio is below the threshold and no processor is cached for its
  algorithm. Construction fails: either the name is not \<open>rife\<close>, the only key of
  \<open>ALGORITHM_CLASSES\<close>, so that the lookup raises \<open>KeyError\<close>, or \<open>Rife(0)\<close> raises
  \<open>e\<close>. Then the iteration ends the loop, whatever the rest of the schedule holds: the
  calls are the one \<open>get\<close>, the difference, the lookup, the construction when the name
  is known, and the log entry; no frame is stored, no second lookup or construction is
  tried, no further job is taken, and the final state is the initial one without the
  failing job, so every other job is still in the queue, in order.
\<close>

theorem construction_failure_ends_loop:
  assumes "running s" and "\<not> pause s"
    and "processing_queue s = (k, (Some image0, image1), (threshold, algorithm)) # rest"
    and "difference_ratio c image0 image1 = Inr ratio" and "ratio < threshold"
    and "processor_objects s algorithm = None"
    and "algorithm = ''rife'' \<longrightarrow> Rife c 0 = Inl e"
  shows "loop c (Iterate # ts) s =
           (Terminated, s\<lparr>processing_queue := rest\<rparr>,
            Get (k, (Some image0, image1), (threshold, algorithm))
              # Difference image0 image1 # Lookup algorithm
              # (if algorithm = ''rife'' then Construct algorithm 0 # except e
                 else [LogException KeyError]))"
proof (cases "algorithm = ''rife''")
  case True
  with assms(7) have "Rife c 0 = Inl e" by simp
  with True assms(1-6) show ?thesis
    by (simp add: iteration_def process_job_def interpolated_image_def processor_object_def
        ALGORITHM_CLASSES_def)
next
  case False
  with assms(1-6) show ?thesis
    by (simp add: iteration_def process_job_def interpolated_image_def processor_object_def
        ALGORITHM_CLASSES_def except_def)
qed

text \<open>
  Claim C10. When the ratio of the job taken is at or above its threshold, the iteration
  makes no lookup in \<open>ALGORITHM_CLASSES\<close>, constructs no processor, invokes none and leaves
  the cache as it is, whatever the algorithm name of the job. So a name that
  \<open>ALGORITHM_CLASSES\<close> does not have cannot fail the job: when the frame index is positive
  and the list is long enough for slot \<open>2k\<close>, the iteration continues the loop.
\<close>

theorem scene_change_needs_no_processor:
  assumes "\<not> pause s"
    and "processing_queue s = (k, (Some image0, image1), (threshold, algorithm)) # rest"
    and "difference_ratio c image0 image1 = Inr ratio" and "threshold \<le> ratio"
    and "iteration c s = (out, s', evs)"
  shows "(\<forall>a. Lookup a \<notin> set evs) \<and> (\<forall>a d. Construct a d \<notin> set evs)
         \<and> (\<forall>a x y. Process a x y \<notin> set evs)
         \<and> processor_objects s' = processor_objects s
         \<and> (1 \<le> k \<and> 2 * k < int (length (processed_frames s)) \<longrightarrow> out = Continue)"
proof -
  let ?s0 = "s\<lparr>processing_queue := rest\<rparr>"
  have body: "\<exists>r evs2. write_frames k image0 image0 image1 ?s0 = (r, s', evs2)
              \<and> process_job c (k, (Some image0, image1), (threshold, algorithm)) ?s0
                  = (r, s', Difference image0 image1 # evs2)"
  proof -
    obtain r evs' where p:
      "process_job c (k, (Some image0, image1), (threshold, algorithm)) ?s0 = (r, s', evs')"
      using assms(1,2,5) by (cases rule: iteration_job_cases) auto
    from p show ?thesis
    proof (cases rule: process_job_cases)
      case (no_ratio e)
      with assms(3) show ?thesis by simp
    next
      case (no_image ratio' e evs1)
      with assms(3) have "interpolated_image c image0 image1 ratio threshold algorithm ?s0
                          = (Inl e, s', evs1)" by simp
      with assms(4) show ?thesis by (simp add: interpolated_image_def)
    next
      case (stored ratio' x s1 evs1 evs2)
      with assms(3) have "interpolated_image c image0 image1 ratio threshold algorithm ?s0
                          = (Inr x, s1, evs1)" by simp
      with assms(4) have "x = image0" "s1 = ?s0" "evs1 = []"
        by (simp_all add: interpolated_image_def)
      with stored p show ?thesis by simp
    qed
  qed
  then obtain r evs2 where w: "write_frames k image0 image0 image1 ?s0 = (r, s', evs2)"
    and p: "process_job c (k, (Some image0, image1), (threshold, algorithm)) ?s0
            = (r, s', Difference image0 image1 # evs2)" by blast
  have stores: "\<exists>n v. ev = SetItem n v" if "ev \<in> set evs2" for ev
    using write_frames_events[OF w that] .
  have cache: "processor_objects s' = processor_objects s"
    using write_frames_frame[OF w] by simp
  have ok: "r = Inr ()" if "1 \<le> k" "2 * k < int (length (processed_frames s))"
  proof -
    from that have "2 * k < int (length (processed_frames ?s0))" by simp
    from write_frames_in_range[OF that(1) this, of image0 image0 image1] w
    show ?thesis by auto
  qed
  from assms(1,2,5) show ?thesis
  proof (cases rule: iteration_job_cases)
    case (went_on evs')
    with p have "evs = Get (k, (Some image0, image1), (threshold, algorithm))
                   # Difference image0 image1 # evs2" by simp
    with stores cache went_on(2) show ?thesis by auto
  next
    case (broke e evs')
    with p have e: "evs = Get (k, (Some image0, image1), (threshold, algorithm))
                   # Difference image0 image1 # evs2 @ except e" "r = Inl e" by simp_all
    with ok have "\<not> (1 \<le> k \<and> 2 * k < int (length (processed_frames s)))" by auto
    with stores cache e(1) show ?thesis by (auto simp: except_def)
  qed
qed

theorem construction_failure_ends_loop_witness:
  "loop stub (Iterate # [Iterate, Iterate])
     (idle\<lparr>processing_queue :=
            [(1, (Some 10, 20), (10, ''dain'')), (2, (Some 20, 30), (10, ''rife''))]\<rparr>)
   = (Terminated,
      idle\<lparr>processing_queue := [(2, (Some 20, 30), (10, ''rife''))]\<rparr>,
      [Get (1, (Some 10, 20), (10, ''dain'')), Difference 10 20, Lookup ''dain'',
       LogException KeyError])
   \<and> loop (stub\<lparr>Rife := \<lambda>device. Inl RuntimeError\<rparr>) (Iterate # [Iterate, Iterate])
     (idle\<lparr>processing_queue :=
            [(1, (Some 10, 20), (10, ''rife'')), (2, (Some 20, 30), (10, ''rife''))]\<rparr>)
   = (Terminated,
      idle\<lparr>processing_queue := [(2, (Some 20, 30), (10, ''rife''))]\<rparr>,
      [Get (1, (Some 10, 20), (10, ''rife'')), Difference 10 20, Lookup ''rife'',
       Construct ''rife'' 0, LogException RuntimeError])"
proof -
  let ?broken = "stub\<lparr>Rife := \<lambda>device. Inl RuntimeError\<rparr>"
  let ?s = "idle\<lparr>processing_queue :=
            [(1, (Some 10, 20), (10, ''dain'')), (2, (Some 20, 30), (10, ''rife''))]\<rparr>"
  let ?t = "idle\<lparr>processing_queue :=
            [(1, (Some 10, 20), (10, ''rife'')), (2, (Some 20, 30), (10, ''rife''))]\<rparr>"
  have run: "running ?s" "running ?t" and act: "\<not> pause ?s" "\<not> pause ?t"
    by (simp_all add: idle_def)
  have qs: "processing_queue ?s
            = (1, (Some 10, 20), (10, ''dain'')) # [(2, (Some 20, 30), (10, ''rife''))]"
    and qt: "processing_queue ?t
            = (1, (Some 10, 20), (10, ''rife'')) # [(2, (Some 20, 30), (10, ''rife''))]"
    by simp_all
  have ratio: "difference_ratio ?broken 10 20 = Inr (200 / 51)"
    by (simp add: difference_ratio_def stub_def)
  have low: "(200 / 51 :: real) < 10" by simp
  have cs: "processor_objects ?s ''dain'' = None" and ct: "processor_objects ?t ''rife'' = None"
    by (simp_all add: idle_def)
  have unknown: "''dain'' = ''rife'' \<longrightarrow> Rife stub 0 = Inl KeyError" by simp
  have failing: "''rife'' = ''rife'' \<longrightarrow> Rife ?broken 0 = Inl RuntimeError" by simp
  from construction_failure_ends_loop
         [OF run(1) act(1) qs stub_ratio_near low cs unknown, of "[Iterate, Iterate]"]
       construction_failure_ends_loop
         [OF run(2) act(2) qt ratio low ct failing, of "[Iterate, Iterate]"]
  show ?thesis by (simp add: except_def)
qed

theorem scene_change_needs_no_processor_witness:
  "\<not> pause scene_cut
   \<and> difference_ratio stub 10 200 = Inr (3800 / 51) \<and> (10 :: real) \<le> 3800 / 51
   \<and> ALGORITHM_CLASSES stub ''unknown'' = None
   \<and> iteration stub scene_cut
       = (Continue, scene_cut_done,
          [Get (2, (Some 10, 200), (10, ''unknown'')), Difference 10 200,
           SetItem 3 10, SetItem 4 200])
   \<and> processor_objects scene_cut_done = processor_objects scene_cut
   \<and> (1::int) \<le> 2 \<and> 2 * 2 < int (length (processed_frames scene_cut))"
proof -
  have high: "(10 :: real) \<le> 3800 / 51" by simp
  have range: "(1::int) \<le> 2" "2 * 2 < int (length (processed_frames scene_cut))"
    by (simp_all add: scene_cut_def idle_def)
  from scene_change_needs_no_processor
         [OF scene_cut_queue stub_ratio_far high scene_cut_run]
  have "processor_objects scene_cut_done = processor_objects scene_cut" by simp
  with scene_cut_queue(1) stub_ratio_far high scene_cut_run range show ?thesis
    by (simp add: ALGORITHM_CLASSES_def)
qed

subsection \<open>The difference estimator\<close>

lemma pixel_difference_unat:
  "real (unat (pixel_difference x y)) = \<bar>real (unat x) - real (unat y)\<bar>"
proof (cases "x \<le> y")
  case True
  then have le: "unat x \<le> unat y" by (simp add: word_le_nat_alt)
  from True have "unat (pixel_difference x y) = unat y - unat x"
    by (simp add: pixel_difference_def unat_sub)
  with le show ?thesis by (simp del: of_nat_unat add: of_nat_diff)
next
  case False
  then have "y \<le> x" by simp
  then have le: "unat y \<le> unat x" by (simp add: word_le_nat_alt)
  from False \<open>y \<le> x\<close> have "unat (pixel_difference x y) = unat x - unat y"
    by (simp add: pixel_difference_def unat_sub)
  with le show ?thesis by (simp del: of_nat_unat add: of_nat_diff)
qed

lemma band_difference_sum:
  "real (sum_list (map unat (map2 pixel_difference xs ys)))
   = sum_list (map2 (\<lambda>x y. \<bar>real (unat x) - real (unat y)\<bar>) xs ys)"
proof (induction xs arbitrary: ys)
  case Nil
  show ?case by simp
next
  case (Cons x xs)
  show ?case
  proof (cases ys)
    case Nil
    then show ?thesis by simp
  next
    case (Cons y ys')
    with Cons.IH[of ys'] pixel_difference_unat[of x y] show ?thesis
      by (simp del: of_nat_unat)
  qed
qed

lemma band_mean:
  assumes "length xs = length ys"
  shows "real (sum_list (map unat (map2 pixel_difference xs ys)))
           / real (length (map2 pixel_difference xs ys))
         = mean_absolute_difference xs ys"
  unfolding band_difference_sum mean_absolute_difference_def using assms by simp

lemma pil_mean_difference:
  assumes "map length a = map length b" and "[] \<notin> set a"
  shows "pil_mean (map2 (map2 pixel_difference) a b)
         = Inr (map2 mean_absolute_difference a b)"
  using assms
proof (induction a arbitrary: b)
  case Nil
  then show ?case by (simp add: pil_mean_def)
next
  case (Cons x a)
  from Cons.prems(1) obtain y b' where b: "b = y # b'" by (cases b) auto
  with Cons.prems have l: "length x = length y" "map length a = map length b'"
    and n: "x \<noteq> []" "[] \<notin> set a" by auto
  from Cons.IH[OF l(2) n(2)]
  have ih: "[] \<notin> set (map2 (map2 pixel_difference) a b')"
    "map (\<lambda>band. real (sum_list (map unat band)) / real (length band))
       (map2 (map2 pixel_difference) a b') = map2 mean_absolute_difference a b'"
    by (simp_all add: pil_mean_def split: if_splits)
  from l(1) n(1) have ne: "map2 pixel_difference x y \<noteq> []" by (cases x; cases y) auto
  from ne ih band_mean[OF l(1)] show ?case
    unfolding b pil_mean_def by (auto simp del: length_map length_zip)
qed

text \<open>
  Claim C3. For two images of the same dimensions (with at least one band and one pixel),
  the ratio the worker computes with Pillow's difference and band means is the average
  over the channels of the per-channel mean absolute pixel difference, divided by 255 and
  multiplied by 100; equivalently, the sum of the per-channel means divided by the number
  of channels times 255, times 100. Arithmetic is exact (\<open>real\<close>), not floating point.
\<close>

theorem difference_ratio_is_mean_difference:
  assumes "same_dimensions a b" and "has_pixels a"
  shows "difference_ratio (pillow rife proc) a b = Inr (estimator_spec a b)
         \<and> estimator_spec a b
           = sum_list (map2 mean_absolute_difference a b) / (real (length a) * 255) * 100"
proof -
  from assms(1) have dims: "map length a = map length b" by (simp add: same_dimensions_def)
  then have len: "length a = length b" by (rule map_eq_imp_length_eq)
  from assms(2) have ne: "a \<noteq> []" "[] \<notin> set a" by (simp_all add: has_pixels_def)
  define D where "D = map2 (map2 pixel_difference) a b"
  define M where "M = map2 mean_absolute_difference a b"
  have d: "ImageChops_difference (pillow rife proc) a b = Inr D"
    using len by (simp add: pillow_def pil_difference_def D_def)
  have m: "ImageStat_mean (pillow rife proc) D = Inr M"
    using pil_mean_difference[OF dims ne(2)] by (simp add: pillow_def D_def M_def)
  have n: "length M = length a" using len by (simp add: M_def)
  from ne(1) have pos: "length a \<noteq> 0" by simp
  have "difference_ratio (pillow rife proc) a b
        = Inr (sum_list M / real (length a * 255) * 100)"
    using pos n by (simp add: difference_ratio_def d m)
  then have "difference_ratio (pillow rife proc) a b
        = Inr (sum_list (map2 mean_absolute_difference a b) / real (length a * 255) * 100)"
    by (simp add: M_def)
  then show ?thesis by (simp add: estimator_spec_def)
qed

theorem difference_ratio_is_mean_difference_witness:
  "same_dimensions [[10, 20], [0, 255]] [[20, 10], [0, 0]]
   \<and> has_pixels [[10, 20], [0, 255]]
   \<and> estimator_spec [[10, 20], [0, 255]] [[20, 10], [0, 0]] = 1375 / 51
   \<and> difference_ratio (pillow (\<lambda>device. Inr (0::nat)) (\<lambda>p x y. Inr x))
        [[10, 20], [0, 255]] [[20, 10], [0, 0]] = Inr (1375 / 51)"
proof -
  have h1: "same_dimensions [[10, 20], [0, 255]] [[20, 10], [0, 0]]"
    by (simp add: same_dimensions_def)
  have h2: "has_pixels [[10, 20], [0, 255]]" by (simp add: has_pixels_def)
  have e: "estimator_spec [[10, 20], [0, 255]] [[20, 10], [0, 0]] = 1375 / 51"
    by (simp add: estimator_spec_def mean_absolute_difference_def)
  from difference_ratio_is_mean_difference
         [OF h1 h2, of "\<lambda>device. Inr (0::nat)" "\<lambda>p x y. Inr x"] h1 h2 e
  show ?thesis by simp
qed

subsection \<open>Outside the job data model\<close>

text \<open>
  The specification gives jobs a positive frame index, and the theorems on slot \<open>2k - 1\<close>
  and on slot 0 assume it. The source does not check it: with frame index 0 and a first
  frame present, \<open>processed_frames[-1]\<close> is the last slot and \<open>processed_frames[0]\<close>
  receives the second frame of the job.
\<close>

lemma frame_index_zero_run:
  "iteration stub (idle\<lparr>processing_queue := [(0, (Some 10, 200), (10, ''rife''))]\<rparr>)
   = (Continue,
      idle\<lparr>processed_frames := [Some 200, None, None, None, Some 10]\<rparr>,
      [Get (0, (Some 10, 200), (10, ''rife'')), Difference 10 200,
       SetItem 4 10, SetItem 0 200])"
  by (simp add: iteration_def process_job_def stub_ratio_far interpolated_image_def
      write_frames_def setitem_def py_setitem_def py_position_def idle_def)

end
